theory Spec2Isabelle
  imports Main "HOL-Library.Sublist" "HOL-Library.AList"
begin

section \<open>Python values used by tools.py\<close>

text \<open>
  Python \<open>str\<close> values are modelled as \<open>string\<close>; a character stands for a code point
  below 256. Exceptions are values: every call that can raise returns \<open>exn + 'a\<close>,
  with \<open>Inl\<close> the raised exception. A \<open>Dict[str, str]\<close> literal is an association list
  read with \<open>map_of\<close>.
\<close>

datatype exn =
    FileNotFoundError string
  | ValueError string
  | AttributeError string
  | Exception string

fun str_exn :: "exn \<Rightarrow> string" where
  "str_exn (FileNotFoundError m) = m"
| "str_exn (ValueError m) = m"
| "str_exn (AttributeError m) = m"
| "str_exn (Exception m) = m"

type_synonym pydict = "(string \<times> string) list"

definition dict_get :: "pydict \<Rightarrow> string \<Rightarrow> string \<Rightarrow> string" where
  \<comment> \<open>\<open>d.get(k, default)\<close>\<close>
  "dict_get d k dflt = (case map_of d k of None \<Rightarrow> dflt | Some v \<Rightarrow> v)"

definition py_isspace :: "char \<Rightarrow> bool" where
  \<comment> \<open>\<open>str.isspace\<close> on the code points below 256: TAB..CR, FS..US, space, NEL, NBSP\<close>
  "py_isspace c =
     (let n = (of_char c :: nat)
      in (9 \<le> n \<and> n \<le> 13) \<or> (28 \<le> n \<and> n \<le> 32) \<or> n = 133 \<or> n = 160)"

definition py_strip :: "string \<Rightarrow> string" where
  \<comment> \<open>\<open>text.strip()\<close>: whitespace removed at both ends\<close>
  "py_strip s = rev (dropWhile py_isspace (rev (dropWhile py_isspace s)))"

fun py_join :: "string \<Rightarrow> string list \<Rightarrow> string" where
  \<comment> \<open>\<open>sep.join(xs)\<close>\<close>
  "py_join sep [] = []"
| "py_join sep [x] = x"
| "py_join sep (x # y # ys) = x @ sep @ py_join sep (y # ys)"

definition py_or_empty :: "string option \<Rightarrow> string" where
  \<comment> \<open>\<open>v or ""\<close>: \<open>None\<close> and the empty string are both falsy\<close>
  "py_or_empty v = (case v of None \<Rightarrow> [] | Some s \<Rightarrow> (if s = [] then [] else s))"

definition digit_char :: "nat \<Rightarrow> char" where
  "digit_char d = char_of (48 + d)"

fun string_of_nat :: "nat \<Rightarrow> string" where
  \<comment> \<open>\<open>str(n)\<close> inside the f-string, for \<open>n = len(points)\<close>\<close>
  "string_of_nat n =
     (if n < 10 then [digit_char n]
      else string_of_nat (n div 10) @ [digit_char (n mod 10)])"

declare string_of_nat.simps [simp del]

section \<open>The vector index and the external services\<close>

text \<open>
  A \<open>PointStruct\<close> has an identifier, a vector and a payload dictionary. The vector type
  is left open: the code never inspects an embedding.
\<close>

record 'v point =
  pid :: string
  vector :: "'v"
  payload :: pydict

text \<open>A \<open>ScoredPoint\<close> returned by \<open>query_points\<close>; its payload is optional.\<close>

record scored_point =
  sp_id :: string
  sp_payload :: "pydict option"

text \<open>The calls create_embeddings issues to the index, the splitter and the embedder, in order.\<close>

datatype 'v call =
    DeleteCall string
  | SplitTextCall string
  | EmbedContentCall string
  | UpsertCall "'v point list"

record 'v store =
  index :: "'v point list"
  calls :: "'v call list"

text \<open>
  Everything outside tools.py is an oracle of the environment: the filesystem, libmagic,
  the four extraction back ends, the splitter (built with CHUNK_SIZE and CHUNK_OVERLAP),
  the embedding service, the UUID generator, and whether a request to the index raises.
  \<open>embed_content\<close> and \<open>uuid4\<close> take the position of the chunk in the list
  comprehension, so that two calls on equal chunks may differ. \<open>pdf_reader\<close> gives, for
  each page in order, what \<open>page.extract_text()\<close> does: raise, or return a string or
  \<open>None\<close>. \<open>image_to_string\<close> stands for opening the image and running the OCR,
  \<open>textract_process\<close> for the bytes of textract decoded as UTF-8 with errors ignored,
  \<open>embed_query\<close> for the embedding request of a search with the lookup of its
  \<open>"embedding"\<close> field.
\<close>

record 'v env =
  path_exists :: "string \<Rightarrow> bool"
  magic_from_file :: "string \<Rightarrow> exn + string"
  pdf_reader :: "string \<Rightarrow> exn + (exn + string option) list"
  docx2txt_process :: "string \<Rightarrow> exn + string"
  image_to_string :: "string \<Rightarrow> exn + string"
  textract_process :: "string \<Rightarrow> exn + string"
  split_text :: "string \<Rightarrow> exn + string list"
  embed_content :: "nat \<Rightarrow> string \<Rightarrow> exn + 'v"
  uuid4 :: "nat \<Rightarrow> string"
  delete_raises :: "string \<Rightarrow> exn option"
  upsert_raises :: "'v point list \<Rightarrow> exn option"
  embed_query :: "string \<Rightarrow> exn + 'v"
  query_points :: "'v \<Rightarrow> int \<Rightarrow> exn + scored_point list"

definition has_file_path :: "string \<Rightarrow> 'v point \<Rightarrow> bool" where
  \<comment> \<open>\<open>FieldCondition(key="file_path", match=MatchValue(value=file_path))\<close>\<close>
  "has_file_path fp p = (map_of (payload p) ''file_path'' = Some fp)"

definition delete_by_file_path :: "string \<Rightarrow> 'v point list \<Rightarrow> 'v point list" where
  \<comment> \<open>Modelled from the spec: the index's \<open>delete_by_file_path(path)\<close> of section 4.6,
      which deletes all points whose payload \<open>file_path\<close> exactly matches and is a no-op
      if none match; the Qdrant service itself is not part of the repository.\<close>
  "delete_by_file_path fp idx = filter (\<lambda>p. \<not> has_file_path fp p) idx"

definition upsert_point :: "'v point \<Rightarrow> 'v point list \<Rightarrow> 'v point list" where
  \<comment> \<open>Modelled from the spec: the index's \<open>upsert(points)\<close> of section 4.6, which writes
      or overwrites points by identifier; the Qdrant service itself is not part of the
      repository.\<close>
  "upsert_point p idx = filter (\<lambda>q. pid q \<noteq> pid p) idx @ [p]"

definition upsert_points :: "'v point list \<Rightarrow> 'v point list \<Rightarrow> 'v point list" where
  "upsert_points ps idx = fold upsert_point ps idx"

definition qdrant_delete :: "'v env \<Rightarrow> string \<Rightarrow> 'v store \<Rightarrow> (exn + unit) \<times> 'v store" where
  \<comment> \<open>\<open>qdrant_client.delete(collection_name, points_selector=filter_condition)\<close>; a
      request that raises leaves the index as it was\<close>
  "qdrant_delete env fp st =
     (let st1 = st\<lparr>calls := calls st @ [DeleteCall fp]\<rparr>
      in case delete_raises env fp of
           Some e \<Rightarrow> (Inl e, st1)
         | None \<Rightarrow> (Inr (), st1\<lparr>index := delete_by_file_path fp (index st1)\<rparr>))"

definition qdrant_upsert :: "'v env \<Rightarrow> 'v point list \<Rightarrow> 'v store \<Rightarrow> (exn + unit) \<times> 'v store" where
  \<comment> \<open>\<open>qdrant_client.upsert(collection_name, points=points)\<close>: one batch; a request that
      raises writes no point (spec section 4.5)\<close>
  "qdrant_upsert env ps st =
     (let st1 = st\<lparr>calls := calls st @ [UpsertCall ps]\<rparr>
      in case upsert_raises env ps of
           Some e \<Rightarrow> (Inl e, st1)
         | None \<Rightarrow> (Inr (), st1\<lparr>index := upsert_points ps (index st1)\<rparr>))"

section \<open>extract\_text\<close>

fun page_texts :: "(exn + string option) list \<Rightarrow> exn + string list" where
  \<comment> \<open>the generator \<open>page.extract_text() or "" for page in reader.pages\<close>: pages are
      visited in order and the first one that raises ends the iteration\<close>
  "page_texts [] = Inr []"
| "page_texts (p # ps) =
     (case p of
        Inl e \<Rightarrow> Inl e
      | Inr t \<Rightarrow>
          (case page_texts ps of
             Inl e \<Rightarrow> Inl e
           | Inr ts \<Rightarrow> Inr (py_or_empty t # ts)))"

definition extract_by_mime :: "'v env \<Rightarrow> string \<Rightarrow> string \<Rightarrow> exn + string" where
  \<comment> \<open>the body of the \<open>try\<close> in extract\_text\<close>
  "extract_by_mime env mime file_path =
     (if mime = ''application/pdf'' then
        (case pdf_reader env file_path of
           Inl e \<Rightarrow> Inl e
         | Inr pages \<Rightarrow>
             (case page_texts pages of
                Inl e \<Rightarrow> Inl e
              | Inr ts \<Rightarrow> Inr (py_join [CHR 0x0A] ts)))
      else if mime \<in> set [''application/vnd.openxmlformats-officedocument.wordprocessingml.document'',
                           ''application/msword''] then
        docx2txt_process env file_path
      else if prefix ''image/'' mime then
        image_to_string env file_path
      else
        textract_process env file_path)"

definition extract_text :: "'v env \<Rightarrow> string \<Rightarrow> exn + string" where
  "extract_text env file_path =
     (if \<not> path_exists env file_path then
        Inl (FileNotFoundError (''File not found: '' @ file_path))
      else
        (case magic_from_file env file_path of
           Inl e \<Rightarrow> Inl e
         | Inr mime \<Rightarrow>
             (case extract_by_mime env mime file_path of
                Inl e \<Rightarrow>
                  Inl (ValueError (''Unsupported file type or extraction error: '' @ str_exn e))
              | Inr text \<Rightarrow> Inr text)))"

section \<open>create\_embeddings\<close>

fun build_points ::
  "'v env \<Rightarrow> string \<Rightarrow> nat \<Rightarrow> string list \<Rightarrow> 'v store \<Rightarrow> (exn + 'v point list) \<times> 'v store" where
  \<comment> \<open>the list comprehension over \<open>chunks\<close>: one identifier and one embedding call per
      chunk, in order; the first embedding call that raises ends it\<close>
  "build_points env file_path i [] st = (Inr [], st)"
| "build_points env file_path i (chunk # chunks) st =
     (let st1 = st\<lparr>calls := calls st @ [EmbedContentCall chunk]\<rparr>
      in case embed_content env i chunk of
           Inl e \<Rightarrow> (Inl e, st1)
         | Inr v \<Rightarrow>
             (case build_points env file_path (Suc i) chunks st1 of
                (Inl e, st2) \<Rightarrow> (Inl e, st2)
              | (Inr ps, st2) \<Rightarrow>
                  (Inr (\<lparr>pid = uuid4 env i, vector = v,
                         payload = [(''text'', chunk), (''file_path'', file_path)]\<rparr> # ps), st2)))"

definition split_chunks :: "'v env \<Rightarrow> string \<Rightarrow> 'v store \<Rightarrow> (exn + string list) \<times> 'v store" where
  \<comment> \<open>\<open>MarkdownTextSplitter(chunk_size=CHUNK_SIZE, chunk_overlap=CHUNK_OVERLAP).split_text(text)\<close>\<close>
  "split_chunks env text st = (split_text env text, st\<lparr>calls := calls st @ [SplitTextCall text]\<rparr>)"

definition success_message :: "nat \<Rightarrow> string" where
  \<comment> \<open>\<open>f"Document added with {len(points)} chunks"\<close>\<close>
  "success_message n = ''Document added with '' @ string_of_nat n @ '' chunks''"

definition ingest_body :: "'v env \<Rightarrow> string \<Rightarrow> bool \<Rightarrow> 'v store \<Rightarrow> (exn + pydict) \<times> 'v store" where
  \<comment> \<open>the body of the \<open>try\<close> in create\_embeddings\<close>
  "ingest_body env file_path overwrite st =
     (case (if overwrite then qdrant_delete env file_path st else (Inr (), st)) of
        (Inl e, st1) \<Rightarrow> (Inl e, st1)
      | (Inr _, st1) \<Rightarrow>
          (case extract_text env file_path of
             Inl e \<Rightarrow> (Inl e, st1)
           | Inr text \<Rightarrow>
               if py_strip text = [] then
                 (Inr [(''status'', ''error''), (''message'', ''No text extracted from the file'')], st1)
               else
                 (case split_chunks env text st1 of
                    (Inl e, st2) \<Rightarrow> (Inl e, st2)
                  | (Inr chunks, st2) \<Rightarrow>
                      (case build_points env file_path 0 chunks st2 of
                         (Inl e, st3) \<Rightarrow> (Inl e, st3)
                       | (Inr points, st3) \<Rightarrow>
                           (case qdrant_upsert env points st3 of
                              (Inl e, st4) \<Rightarrow> (Inl e, st4)
                            | (Inr _, st4) \<Rightarrow>
                                (Inr [(''status'', ''success''),
                                      (''message'', success_message (length points))], st4))))))"

definition create_embeddings :: "'v env \<Rightarrow> string \<Rightarrow> bool \<Rightarrow> 'v store \<Rightarrow> pydict \<times> 'v store" where
  "create_embeddings env file_path overwrite st =
     (if \<not> path_exists env file_path then
        ([(''status'', ''error''), (''message'', ''File not found'')], st)
      else
        (case ingest_body env file_path overwrite st of
           (Inl e, st') \<Rightarrow> ([(''status'', ''error''), (''message'', str_exn e)], st')
         | (Inr res, st') \<Rightarrow> (res, st')))"

section \<open>qdrant\_search\<close>

fun retrieved_texts :: "scored_point list \<Rightarrow> exn + pydict list" where
  \<comment> \<open>\<open>[{"text": p.payload.get("text", "")} for p in results.points]\<close>; a point whose
      payload is \<open>None\<close> raises AttributeError\<close>
  "retrieved_texts [] = Inr []"
| "retrieved_texts (p # ps) =
     (case sp_payload p of
        None \<Rightarrow>
          Inl (AttributeError ([CHR 0x27] @ ''NoneType'' @ [CHR 0x27] @ '' object has no attribute ''
                               @ [CHR 0x27] @ ''get'' @ [CHR 0x27]))
      | Some d \<Rightarrow>
          (case retrieved_texts ps of
             Inl e \<Rightarrow> Inl e
           | Inr rs \<Rightarrow> Inr ([(''text'', dict_get d ''text'' [])] # rs)))"

definition search_body :: "'v env \<Rightarrow> string \<Rightarrow> int \<Rightarrow> exn + pydict list" where
  \<comment> \<open>the body of the \<open>try\<close> in qdrant\_search\<close>
  "search_body env query top_k =
     (case embed_query env query of
        Inl e \<Rightarrow> Inl e
      | Inr embedding \<Rightarrow>
          (case query_points env embedding top_k of
             Inl e \<Rightarrow> Inl e
           | Inr results \<Rightarrow> retrieved_texts results))"

definition qdrant_search :: "'v env \<Rightarrow> string \<Rightarrow> int \<Rightarrow> pydict list" where
  "qdrant_search env query top_k =
     (case search_body env query top_k of
        Inl e \<Rightarrow> [ [(''text'', ''Error searching documents: '' @ str_exn e)] ]
      | Inr retrieved \<Rightarrow> retrieved)"

section \<open>create\_collection\<close>

datatype distance = COSINE | EUCLID | DOT | MANHATTAN

datatype payload_schema_type = KEYWORD | INTEGER | FLOAT | GEO | TEXT | BOOL | DATETIME | UUID

record collection_info =
  vectors_size :: nat
  vectors_distance :: distance
  payload_schema :: "(string \<times> payload_schema_type) list"

text \<open>The create requests sent to the backend, in order.\<close>

datatype create_op =
    CreateCollectionCall string nat distance
  | CreatePayloadIndexCall string string payload_schema_type

record catalog =
  collections :: "(string \<times> collection_info) list"
  create_ops :: "create_op list"

text \<open>Whether each of the four requests of create\_collection raises.\<close>

record faults =
  get_collections_raises :: "exn option"
  create_collection_raises :: "exn option"
  get_collection_raises :: "exn option"
  create_payload_index_raises :: "exn option"

definition backend_create_collection ::
  "faults \<Rightarrow> string \<Rightarrow> nat \<Rightarrow> distance \<Rightarrow> catalog \<Rightarrow> (exn + unit) \<times> catalog" where
  \<comment> \<open>\<open>qdrant_client.create_collection(collection_name, vectors_config=VectorParams(size, distance))\<close>;
      the backend refuses a name that is taken\<close>
  "backend_create_collection f name sz dist cat =
     (let cat1 = cat\<lparr>create_ops := create_ops cat @ [CreateCollectionCall name sz dist]\<rparr>
      in case create_collection_raises f of
           Some e \<Rightarrow> (Inl e, cat1)
         | None \<Rightarrow>
             if name \<in> set (map fst (collections cat1)) then
               (Inl (Exception ''Collection already exists''), cat1)
             else
               (Inr (), cat1\<lparr>collections := collections cat1 @
                  [(name, \<lparr>vectors_size = sz, vectors_distance = dist, payload_schema = []\<rparr>)]\<rparr>))"

definition backend_get_collection :: "faults \<Rightarrow> string \<Rightarrow> catalog \<Rightarrow> exn + collection_info" where
  \<comment> \<open>\<open>qdrant_client.get_collection(COLLECTION_NAME)\<close>\<close>
  "backend_get_collection f name cat =
     (case get_collection_raises f of
        Some e \<Rightarrow> Inl e
      | None \<Rightarrow>
          (case map_of (collections cat) name of
             None \<Rightarrow> Inl (Exception ''Collection not found'')
           | Some info \<Rightarrow> Inr info))"

definition backend_create_payload_index ::
  "faults \<Rightarrow> string \<Rightarrow> string \<Rightarrow> payload_schema_type \<Rightarrow> catalog \<Rightarrow> (exn + unit) \<times> catalog" where
  \<comment> \<open>\<open>qdrant_client.create_payload_index(collection_name, field_name, field_schema)\<close>\<close>
  "backend_create_payload_index f name field ty cat =
     (let cat1 = cat\<lparr>create_ops := create_ops cat @ [CreatePayloadIndexCall name field ty]\<rparr>
      in case create_payload_index_raises f of
           Some e \<Rightarrow> (Inl e, cat1)
         | None \<Rightarrow>
             (case map_of (collections cat1) name of
                None \<Rightarrow> (Inl (Exception ''Collection not found''), cat1)
              | Some info \<Rightarrow>
                  (Inr (), cat1\<lparr>collections :=
                     AList.update name
                       (info\<lparr>payload_schema := AList.update field ty (payload_schema info)\<rparr>)
                       (collections cat1)\<rparr>)))"

definition create_collection :: "string \<Rightarrow> faults \<Rightarrow> catalog \<Rightarrow> (exn + unit) \<times> catalog" where
  \<comment> \<open>the first argument is COLLECTION\_NAME; \<open>Inl e\<close> is the exception re-raised by the
      \<open>except\<close> clause\<close>
  "create_collection name f cat =
     (case get_collections_raises f of
        Some e \<Rightarrow> (Inl e, cat)
      | None \<Rightarrow>
          (case (if name \<notin> set (map fst (collections cat))
                 then backend_create_collection f name 768 COSINE cat
                 else (Inr (), cat)) of
             (Inl e, cat1) \<Rightarrow> (Inl e, cat1)
           | (Inr _, cat1) \<Rightarrow>
               (case backend_get_collection f name cat1 of
                  Inl e \<Rightarrow> (Inl e, cat1)
                | Inr collection_info \<Rightarrow>
                    if ''file_path'' \<notin> set (map fst (payload_schema collection_info))
                    then backend_create_payload_index f name ''file_path'' KEYWORD cat1
                    else (Inr (), cat1))))"

definition new_create_ops :: "string \<Rightarrow> faults \<Rightarrow> catalog \<Rightarrow> create_op list" where
  \<comment> \<open>the create requests one call of create\_collection sends\<close>
  "new_create_ops name f cat =
     drop (length (create_ops cat)) (create_ops (snd (create_collection name f cat)))"

definition no_faults :: faults where
  "no_faults = \<lparr>get_collections_raises = None, create_collection_raises = None,
                get_collection_raises = None, create_payload_index_raises = None\<rparr>"

definition has_collection :: "string \<Rightarrow> catalog \<Rightarrow> bool" where
  "has_collection name cat = (name \<in> set (map fst (collections cat)))"

definition has_file_path_index :: "string \<Rightarrow> catalog \<Rightarrow> bool" where
  "has_file_path_index name cat =
     (case map_of (collections cat) name of
        None \<Rightarrow> False
      | Some info \<Rightarrow> ''file_path'' \<in> set (map fst (payload_schema info)))"

section \<open>Auxiliary notions for the statements\<close>

text \<open>
  The index a call of create\_embeddings works on once the scoped delete is over, and the
  delete requests it has issued by then.
\<close>

definition base_index :: "'v env \<Rightarrow> string \<Rightarrow> bool \<Rightarrow> 'v store \<Rightarrow> 'v point list" where
  "base_index env fp ow st =
     (if ow \<and> delete_raises env fp = None then delete_by_file_path fp (index st) else index st)"

definition delete_calls :: "string \<Rightarrow> bool \<Rightarrow> 'v call list" where
  "delete_calls fp ow = (if ow then [DeleteCall fp] else [])"


section \<open>A concrete environment\<close>

text \<open>
  Three files exist: a three-page PDF whose second page yields no text, a text file and a
  file of whitespace. The splitter cuts after five characters; the embedding of the query
  fails.
\<close>

definition sample_env :: "nat list env" where
  "sample_env =
     \<lparr>path_exists = (\<lambda>p. p \<in> set [''/docs/a.pdf'', ''/docs/b.txt'', ''/docs/blank.txt'']),
      magic_from_file = (\<lambda>p. Inr (if p = ''/docs/a.pdf'' then ''application/pdf'' else ''text/plain'')),
      pdf_reader = (\<lambda>p. Inr [Inr (Some ''Hello''), Inr None, Inr (Some ''World'')]),
      docx2txt_process = (\<lambda>p. Inl (Exception ''not a word document'')),
      image_to_string = (\<lambda>p. Inl (Exception ''not an image'')),
      textract_process = (\<lambda>p. Inr (if p = ''/docs/b.txt'' then ''notes on B'' else [CHR '' '', CHR 0x0A])),
      split_text = (\<lambda>t. Inr [take 5 t, drop 5 t]),
      embed_content = (\<lambda>i c. Inr [i, length c]),
      uuid4 = (\<lambda>i. ''uuid-'' @ string_of_nat i),
      delete_raises = (\<lambda>p. None),
      upsert_raises = (\<lambda>ps. None),
      embed_query = (\<lambda>q. Inl (Exception ''quota exceeded'')),
      query_points = (\<lambda>v k. Inr [])\<rparr>"

definition sample_store :: "nat list store" where
  "sample_store =
     \<lparr>index = [\<lparr>pid = ''old-a'', vector = [0], payload = [(''text'', ''stale''), (''file_path'', ''/docs/a.pdf'')]\<rparr>,
               \<lparr>pid = ''old-b'', vector = [1], payload = [(''text'', ''notes''), (''file_path'', ''/docs/b.txt'')]\<rparr>],
      calls = []\<rparr>"


definition upsert_down_env :: "nat list env" where
  \<comment> \<open>as \<open>sample_env\<close>, with an index that refuses the batch\<close>
  "upsert_down_env = sample_env\<lparr>upsert_raises := (\<lambda>ps. Some (Exception ''index unavailable''))\<rparr>"


definition bad_page_env :: "nat list env" where
  \<comment> \<open>as \<open>sample_env\<close>, with a second page whose \<open>extract_text\<close> raises\<close>
  "bad_page_env = sample_env\<lparr>pdf_reader :=
     (\<lambda>p. Inr [Inr (Some ''Hello''), Inl (Exception ''broken stream''), Inr (Some ''World'')])\<rparr>"

definition fresh_catalog :: catalog where
  "fresh_catalog = \<lparr>collections = [], create_ops = []\<rparr>"

section \<open>Lemmas on the index operations and the ingestion pipeline\<close>

lemma set_delete_by_file_path:
  "set (delete_by_file_path fp idx) = {p \<in> set idx. \<not> has_file_path fp p}"
  by (simp add: delete_by_file_path_def)

lemma delete_by_file_path_none_left:
  "filter (has_file_path fp) (delete_by_file_path fp idx) = []"
  by (simp add: delete_by_file_path_def)

lemma upsert_point_keeps:
  "q \<in> set idx \<Longrightarrow> pid q \<noteq> pid p \<Longrightarrow> q \<in> set (upsert_point p idx)"
  by (simp add: upsert_point_def)

lemma upsert_points_keeps:
  "q \<in> set idx \<Longrightarrow> pid q \<notin> pid ` set ps \<Longrightarrow> q \<in> set (upsert_points ps idx)"
  unfolding upsert_points_def
proof (induction ps arbitrary: idx)
  case Nil
  then show ?case by simp
next
  case (Cons p ps)
  from Cons.prems have "q \<in> set (upsert_point p idx)"
    by (intro upsert_point_keeps) auto
  with Cons show ?case by simp
qed

lemma upsert_point_fresh:
  "pid p \<notin> pid ` set idx \<Longrightarrow> upsert_point p idx = idx @ [p]"
proof -
  assume "pid p \<notin> pid ` set idx"
  then have "\<forall>q \<in> set idx. pid q \<noteq> pid p" by (metis imageI)
  then have "filter (\<lambda>q. pid q \<noteq> pid p) idx = idx" by (simp add: filter_id_conv)
  then show ?thesis by (simp add: upsert_point_def)
qed

lemma upsert_points_fresh:
  "distinct (map pid ps) \<Longrightarrow> pid ` set ps \<inter> pid ` set idx = {} \<Longrightarrow>
   upsert_points ps idx = idx @ ps"
  unfolding upsert_points_def
proof (induction ps arbitrary: idx)
  case Nil
  then show ?case by simp
next
  case (Cons p ps)
  have fresh: "pid p \<notin> pid ` set idx"
    using Cons.prems(2) by auto
  have "fold upsert_point ps (idx @ [p]) = (idx @ [p]) @ ps"
    using Cons.prems by (intro Cons.IH) auto
  then show ?case
    by (simp add: upsert_point_fresh [OF fresh])
qed

lemma build_points_step:
  "build_points env fp i (c # cs) st =
     (case embed_content env i c of
        Inl e \<Rightarrow> (Inl e, st\<lparr>calls := calls st @ [EmbedContentCall c]\<rparr>)
      | Inr v \<Rightarrow>
          (case build_points env fp (Suc i) cs (st\<lparr>calls := calls st @ [EmbedContentCall c]\<rparr>) of
             (Inl e, st2) \<Rightarrow> (Inl e, st2)
           | (Inr ps, st2) \<Rightarrow>
               (Inr (\<lparr>pid = uuid4 env i, vector = v,
                      payload = [(''text'', c), (''file_path'', fp)]\<rparr> # ps), st2)))"
  by (simp add: Let_def)

lemma build_points_index:
  "build_points env fp i chunks st = (r, st') \<Longrightarrow> index st' = index st"
proof (induction chunks arbitrary: i st r st')
  case Nil
  then show ?case by auto
next
  case (Cons c cs)
  let ?st1 = "st\<lparr>calls := calls st @ [EmbedContentCall c]\<rparr>"
  show ?case
  proof (cases "embed_content env i c")
    case (Inl e)
    with Cons.prems show ?thesis by (auto simp: build_points_step)
  next
    case (Inr v)
    obtain r2 st2 where rec: "build_points env fp (Suc i) cs ?st1 = (r2, st2)"
      by (cases "build_points env fp (Suc i) cs ?st1")
    from Cons.IH [OF rec] have "index st2 = index st" by simp
    moreover from Cons.prems Inr rec have "st' = st2"
      by (cases r2) (auto simp: build_points_step)
    ultimately show ?thesis by simp
  qed
qed

lemma build_points_calls:
  "build_points env fp i chunks st = (r, st') \<Longrightarrow>
     \<exists>n \<le> length chunks. calls st' = calls st @ map EmbedContentCall (take n chunks)"
proof (induction chunks arbitrary: i st r st')
  case Nil
  then show ?case by auto
next
  case (Cons c cs)
  let ?st1 = "st\<lparr>calls := calls st @ [EmbedContentCall c]\<rparr>"
  show ?case
  proof (cases "embed_content env i c")
    case (Inl e)
    with Cons.prems have "calls st' = calls st @ map EmbedContentCall (take 1 (c # cs))"
      by (auto simp: build_points_step)
    then show ?thesis by (intro exI[of _ 1]) simp
  next
    case (Inr v)
    obtain r2 st2 where rec: "build_points env fp (Suc i) cs ?st1 = (r2, st2)"
      by (cases "build_points env fp (Suc i) cs ?st1")
    from Cons.IH [OF rec] obtain n where n: "n \<le> length cs"
      "calls st2 = calls ?st1 @ map EmbedContentCall (take n cs)" by blast
    moreover from Cons.prems Inr rec have "st' = st2"
      by (cases r2) (auto simp: build_points_step)
    ultimately have "calls st' = calls st @ map EmbedContentCall (take (Suc n) (c # cs))"
      by simp
    with n(1) show ?thesis by (intro exI[of _ "Suc n"]) simp
  qed
qed

lemma build_points_ok:
  "build_points env fp i chunks st = (Inr ps, st') \<Longrightarrow>
     map pid ps = map (uuid4 env) [i ..< i + length chunks]
     \<and> map payload ps = map (\<lambda>c. [(''text'', c), (''file_path'', fp)]) chunks
     \<and> calls st' = calls st @ map EmbedContentCall chunks"
proof (induction chunks arbitrary: i st ps st')
  case Nil
  then show ?case by auto
next
  case (Cons c cs)
  let ?st1 = "st\<lparr>calls := calls st @ [EmbedContentCall c]\<rparr>"
  from Cons.prems obtain v where v: "embed_content env i c = Inr v"
    by (cases "embed_content env i c") (auto simp: build_points_step)
  obtain r2 st2 where rec: "build_points env fp (Suc i) cs ?st1 = (r2, st2)"
    by (cases "build_points env fp (Suc i) cs ?st1")
  from Cons.prems v rec obtain ps2 where r2: "r2 = Inr ps2"
    and ps: "ps = \<lparr>pid = uuid4 env i, vector = v, payload = [(''text'', c), (''file_path'', fp)]\<rparr> # ps2"
    and st': "st' = st2"
    by (cases r2) (auto simp: build_points_step)
  from Cons.IH [OF rec [unfolded r2]] ps st' show ?case
    by (simp add: upt_conv_Cons del: upt_Suc)
qed

lemma build_points_fails:
  "k < length chunks \<Longrightarrow> embed_content env (i + k) (chunks ! k) = Inl e \<Longrightarrow>
     \<exists>e'. fst (build_points env fp i chunks st) = Inl e'"
proof (induction chunks arbitrary: i k st)
  case Nil
  then show ?case by simp
next
  case (Cons c cs)
  let ?st1 = "st\<lparr>calls := calls st @ [EmbedContentCall c]\<rparr>"
  show ?case
  proof (cases "embed_content env i c")
    case (Inl e0)
    then show ?thesis by (simp add: build_points_step)
  next
    case (Inr v)
    with Cons.prems obtain k' where k: "k = Suc k'" by (cases k) auto
    with Cons.prems have "\<exists>e'. fst (build_points env fp (Suc i) cs ?st1) = Inl e'"
      by (intro Cons.IH [of k']) auto
    then obtain e' where "fst (build_points env fp (Suc i) cs ?st1) = Inl e'" ..
    with Inr show ?thesis
      by (cases "build_points env fp (Suc i) cs ?st1") (simp add: build_points_step)
  qed
qed

declare build_points.simps(2) [simp del]

lemma build_points_result_independent:
  "fst (build_points env fp i chunks st) = fst (build_points env fp i chunks st0)"
proof (induction chunks arbitrary: i st st0)
  case Nil
  show ?case by simp
next
  case (Cons c cs)
  let ?st1 = "st\<lparr>calls := calls st @ [EmbedContentCall c]\<rparr>"
  let ?st2 = "st0\<lparr>calls := calls st0 @ [EmbedContentCall c]\<rparr>"
  have "fst (build_points env fp (Suc i) cs ?st1) = fst (build_points env fp (Suc i) cs ?st2)"
    by (rule Cons.IH)
  then show ?case
    by (cases "build_points env fp (Suc i) cs ?st1"; cases "build_points env fp (Suc i) cs ?st2")
       (auto simp: build_points_step split: sum.splits)
qed

lemma ingest_body_outcome:
  assumes "ingest_body env fp ow st = (r, st')"
  shows "(\<exists>text chunks ps.
            (ow \<longrightarrow> delete_raises env fp = None)
            \<and> extract_text env fp = Inr text \<and> py_strip text \<noteq> []
            \<and> split_text env text = Inr chunks
            \<and> (\<forall>st0. fst (build_points env fp 0 chunks st0) = Inr ps)
            \<and> map pid ps = map (uuid4 env) [0 ..< length chunks]
            \<and> map payload ps = map (\<lambda>c. [(''text'', c), (''file_path'', fp)]) chunks
            \<and> upsert_raises env ps = None
            \<and> r = Inr [(''status'', ''success''), (''message'', success_message (length ps))]
            \<and> index st' = upsert_points ps (base_index env fp ow st)
            \<and> calls st' = calls st @ delete_calls fp ow @ [SplitTextCall text]
                  @ map EmbedContentCall chunks @ [UpsertCall ps])
         \<or> ((r = Inr [(''status'', ''error''), (''message'', ''No text extracted from the file'')]
              \<or> (\<exists>e. r = Inl e))
             \<and> index st' = base_index env fp ow st)"
proof -
  define st1 where "st1 = snd (if ow then qdrant_delete env fp st else (Inr (), st))"
  define d where "d = fst (if ow then qdrant_delete env fp st else (Inr (), st))"
  have d_st1: "(if ow then qdrant_delete env fp st else (Inr (), st)) = (d, st1)"
    by (simp add: d_def st1_def)
  have st1_calls: "calls st1 = calls st @ delete_calls fp ow"
    by (auto simp: st1_def qdrant_delete_def delete_calls_def Let_def split: option.splits)
  show ?thesis
  proof (cases d)
    case (Inl e)
    then have "ow" "delete_raises env fp \<noteq> None" "index st1 = index st"
      by (auto simp: d_def st1_def qdrant_delete_def Let_def split: if_splits option.splits)
    moreover from assms Inl have "r = Inl e" "st' = st1"
      by (auto simp: ingest_body_def d_st1)
    ultimately show ?thesis by (auto simp: base_index_def)
  next
    case (Inr u)
    then have ok: "ow \<longrightarrow> delete_raises env fp = None"
      and st1_index: "index st1 = base_index env fp ow st"
      by (auto simp: d_def st1_def qdrant_delete_def base_index_def Let_def
               split: if_splits option.splits)
    show ?thesis
    proof (cases "extract_text env fp")
      case (Inl e)
      with assms Inr have "r = Inl e" "st' = st1"
        by (auto simp: ingest_body_def d_st1)
      with st1_index show ?thesis by simp
    next
      case extracted: (Inr content)
      show ?thesis
      proof (cases "py_strip content = []")
        case True
        with assms Inr extracted
        have "r = Inr [(''status'', ''error''), (''message'', ''No text extracted from the file'')]"
          "st' = st1"
          by (auto simp: ingest_body_def d_st1)
        with st1_index show ?thesis by simp
      next
        case nonblank: False
        let ?st2 = "st1\<lparr>calls := calls st1 @ [SplitTextCall content]\<rparr>"
        show ?thesis
        proof (cases "split_text env content")
          case (Inl e)
          with assms Inr extracted nonblank have "r = Inl e" "st' = ?st2"
            by (auto simp: ingest_body_def d_st1 split_chunks_def)
          with st1_index show ?thesis by simp
        next
          case chunks: (Inr chunks)
          obtain b st3 where b: "build_points env fp 0 chunks ?st2 = (b, st3)"
            by (cases "build_points env fp 0 chunks ?st2")
          from build_points_index [OF b] st1_index
          have st3_index: "index st3 = base_index env fp ow st" by simp
          show ?thesis
          proof (cases b)
            case (Inl e)
            with assms Inr extracted nonblank chunks b have "r = Inl e" "st' = st3"
              by (auto simp: ingest_body_def d_st1 split_chunks_def)
            with st3_index show ?thesis by simp
          next
            case ps: (Inr ps)
            have built: "\<forall>st0. fst (build_points env fp 0 chunks st0) = Inr ps"
            proof
              fix st0
              have "fst (build_points env fp 0 chunks st0) = fst (build_points env fp 0 chunks ?st2)"
                by (rule build_points_result_independent)
              with b ps show "fst (build_points env fp 0 chunks st0) = Inr ps" by simp
            qed
            from build_points_ok [OF b [unfolded ps]] st1_calls
            have ids: "map pid ps = map (uuid4 env) [0 ..< length chunks]"
              and pls: "map payload ps = map (\<lambda>c. [(''text'', c), (''file_path'', fp)]) chunks"
              and st3_calls: "calls st3 = calls st @ delete_calls fp ow @ [SplitTextCall content]
                   @ map EmbedContentCall chunks"
              by simp_all
            show ?thesis
            proof (cases "upsert_raises env ps")
              case (Some e)
              with assms Inr extracted nonblank chunks b ps
              have "r = Inl e" "index st' = index st3"
                by (auto simp: ingest_body_def d_st1 split_chunks_def qdrant_upsert_def Let_def)
              with st3_index show ?thesis by simp
            next
              case None
              with assms Inr extracted nonblank chunks b ps
              have "r = Inr [(''status'', ''success''), (''message'', success_message (length ps))]"
                "index st' = upsert_points ps (index st3)"
                "calls st' = calls st3 @ [UpsertCall ps]"
                by (auto simp: ingest_body_def d_st1 split_chunks_def qdrant_upsert_def Let_def)
              with ok extracted nonblank chunks built ids pls None st3_index st3_calls
              show ?thesis by auto
            qed
          qed
        qed
      qed
    qed
  qed
qed

lemma create_embeddings_missing:
  "\<not> path_exists env fp \<Longrightarrow>
     create_embeddings env fp ow st = ([(''status'', ''error''), (''message'', ''File not found'')], st)"
  by (simp add: create_embeddings_def)

lemma create_embeddings_existing:
  assumes "path_exists env fp" and "ingest_body env fp ow st = (r, st')"
  shows "create_embeddings env fp ow st =
           ((case r of Inl e \<Rightarrow> [(''status'', ''error''), (''message'', str_exn e)] | Inr res \<Rightarrow> res), st')"
  using assms by (simp add: create_embeddings_def split: sum.splits)

lemma base_index_keeps:
  "p \<in> set (index st) \<Longrightarrow> (ow \<Longrightarrow> \<not> has_file_path fp p) \<Longrightarrow> p \<in> set (base_index env fp ow st)"
  by (auto simp: base_index_def set_delete_by_file_path)

lemma create_embeddings_keeps:
  assumes p: "p \<in> set (index st)"
    and other: "ow \<Longrightarrow> \<not> has_file_path fp p"
    and fresh: "pid p \<notin> range (uuid4 env)"
  shows "p \<in> set (index (snd (create_embeddings env fp ow st)))"
proof (cases "path_exists env fp")
  case False
  with p show ?thesis by (simp add: create_embeddings_missing)
next
  case True
  obtain r st' where body: "ingest_body env fp ow st = (r, st')"
    by (cases "ingest_body env fp ow st")
  have base: "p \<in> set (base_index env fp ow st)"
    using p other by (rule base_index_keeps)
  from ingest_body_outcome [OF body] have "p \<in> set (index st')"
  proof (elim disjE exE conjE)
    fix content chunks ps
    assume ids: "map pid ps = map (uuid4 env) [0 ..< length chunks]"
      and idx: "index st' = upsert_points ps (base_index env fp ow st)"
    have "pid ` set ps = set (map pid ps)" by simp
    also have "\<dots> \<subseteq> range (uuid4 env)" unfolding ids by auto
    finally have "pid p \<notin> pid ` set ps" using fresh by blast
    with base show ?thesis unfolding idx by (rule upsert_points_keeps)
  next
    assume "index st' = base_index env fp ow st"
    with base show ?thesis by simp
  next
    assume "index st' = base_index env fp ow st"
    with base show ?thesis by simp
  qed
  with True body show ?thesis by (simp add: create_embeddings_existing)
qed

lemma ingest_body_calls:
  assumes "ingest_body env fp ow st = (r, st')"
  shows "\<exists>new. calls st' = calls st @ delete_calls fp ow @ new
            \<and> (\<forall>c \<in> set new. \<forall>path. c \<noteq> DeleteCall path)"
proof -
  obtain d st1 where d: "(if ow then qdrant_delete env fp st else (Inr (), st)) = (d, st1)"
    by (cases "if ow then qdrant_delete env fp st else (Inr (), st)")
  then have st1: "calls st1 = calls st @ delete_calls fp ow"
    by (auto simp: qdrant_delete_def delete_calls_def Let_def split: option.splits if_splits)
  have "\<exists>new. calls st' = calls st1 @ new \<and> (\<forall>c \<in> set new. \<forall>path. c \<noteq> DeleteCall path)"
  proof (cases "\<exists>content chunks. d = Inr () \<and> extract_text env fp = Inr content
                   \<and> py_strip content \<noteq> [] \<and> split_text env content = Inr chunks")
    case False
    with assms d have "st' = st1 \<or> (\<exists>content. st' = st1\<lparr>calls := calls st1 @ [SplitTextCall content]\<rparr>)"
      by (auto simp: ingest_body_def split_chunks_def split: sum.splits if_splits)
    then show ?thesis by auto
  next
    case True
    then obtain content chunks where c: "d = Inr ()" "extract_text env fp = Inr content"
      "py_strip content \<noteq> []" "split_text env content = Inr chunks" by blast
    let ?st2 = "st1\<lparr>calls := calls st1 @ [SplitTextCall content]\<rparr>"
    obtain b st3 where b: "build_points env fp 0 chunks ?st2 = (b, st3)"
      by (cases "build_points env fp 0 chunks ?st2")
    from build_points_calls [OF b] obtain n where
      st3: "calls st3 = calls st1 @ [SplitTextCall content] @ map EmbedContentCall (take n chunks)"
      by auto
    from assms d c b have "calls st' = calls st3 \<or> (\<exists>ps. calls st' = calls st3 @ [UpsertCall ps])"
      by (auto simp: ingest_body_def split_chunks_def qdrant_upsert_def Let_def
               split: sum.splits option.splits)
    then show ?thesis unfolding st3 by auto
  qed
  then show ?thesis unfolding st1 by simp
qed

lemma page_texts_all_ok:
  "\<forall>p \<in> set pages. \<exists>t. p = Inr t \<Longrightarrow>
     page_texts pages = Inr (map (\<lambda>p. case p of Inl _ \<Rightarrow> [] | Inr t \<Rightarrow> py_or_empty t) pages)"
  by (induction pages) auto

lemma page_texts_some_raise:
  "\<exists>e. Inl e \<in> set pages \<Longrightarrow> \<exists>e. Inl e \<in> set pages \<and> page_texts pages = Inl e"
proof (induction pages)
  case Nil
  then show ?case by simp
next
  case (Cons p ps)
  show ?case
  proof (cases p)
    case (Inl e)
    then show ?thesis by auto
  next
    case (Inr t)
    with Cons.prems have "\<exists>e. Inl e \<in> set ps" by auto
    from Cons.IH [OF this] obtain e where "Inl e \<in> set ps" "page_texts ps = Inl e" by blast
    with Inr show ?thesis by auto
  qed
qed

lemma has_index_has_collection:
  "has_file_path_index name cat \<Longrightarrow> has_collection name cat"
  by (auto simp: has_file_path_index_def has_collection_def split: option.splits
           dest: map_of_SomeD intro: rev_image_eqI)

lemma create_collection_both_exist:
  assumes "get_collections_raises f = None" and "get_collection_raises f = None"
    and "has_file_path_index name cat"
  shows "create_collection name f cat = (Inr (), cat)"
proof -
  from assms(3) have "has_collection name cat" by (rule has_index_has_collection)
  with assms show ?thesis
    by (auto simp: create_collection_def backend_get_collection_def has_collection_def
                   has_file_path_index_def split: option.splits)
qed

lemma create_collection_ops_both_exist:
  assumes "has_file_path_index name cat"
  shows "new_create_ops name f cat = []"
proof -
  from assms have "has_collection name cat" by (rule has_index_has_collection)
  with assms show ?thesis
    by (auto simp: new_create_ops_def create_collection_def backend_get_collection_def
                   has_collection_def has_file_path_index_def split: option.splits)
qed

lemma create_collection_ops:
  "new_create_ops name f cat =
     (if get_collections_raises f \<noteq> None then []
      else (if has_collection name cat then [] else [CreateCollectionCall name 768 COSINE])
         @ (if (has_collection name cat \<or> create_collection_raises f = None)
               \<and> get_collection_raises f = None
               \<and> \<not> has_file_path_index name cat
            then [CreatePayloadIndexCall name ''file_path'' KEYWORD] else []))"
proof (cases "has_collection name cat")
  case True
  then have "map_of (collections cat) name \<noteq> None"
    by (simp add: has_collection_def map_of_eq_None_iff)
  then obtain info where "map_of (collections cat) name = Some info" by auto
  with True show ?thesis
    by (auto simp: new_create_ops_def create_collection_def backend_get_collection_def
                   backend_create_payload_index_def has_collection_def has_file_path_index_def
                   Let_def split: option.splits)
next
  case False
  then have none: "map_of (collections cat) name = None"
    by (simp add: has_collection_def map_of_eq_None_iff)
  with False show ?thesis
    by (auto simp: new_create_ops_def create_collection_def backend_get_collection_def
                   backend_create_collection_def
                   backend_create_payload_index_def has_collection_def has_file_path_index_def
                   Let_def split: option.splits)
qed


lemma create_collection_no_faults:
  assumes "create_collection name no_faults cat = (r, cat')"
  shows "r = Inr () \<and> has_file_path_index name cat'
     \<and> (\<not> has_collection name cat \<longrightarrow>
           map_of (collections cat') name =
             Some \<lparr>vectors_size = 768, vectors_distance = COSINE,
                   payload_schema = [(''file_path'', KEYWORD)]\<rparr>)
     \<and> (\<forall>info. map_of (collections cat) name = Some info \<longrightarrow>
           (\<exists>info'. map_of (collections cat') name = Some info'
               \<and> vectors_size info' = vectors_size info
               \<and> vectors_distance info' = vectors_distance info))
     \<and> (\<forall>other. other \<noteq> name \<longrightarrow>
           map_of (collections cat') other = map_of (collections cat) other)"
proof (cases "has_collection name cat")
  case True
  then have "map_of (collections cat) name \<noteq> None"
    by (simp add: has_collection_def map_of_eq_None_iff)
  then obtain info where info: "map_of (collections cat) name = Some info" by auto
  show ?thesis
  proof (cases "''file_path'' \<in> set (map fst (payload_schema info))")
    case True
    with info have "has_file_path_index name cat" by (simp add: has_file_path_index_def)
    moreover from this have "create_collection name no_faults cat = (Inr (), cat)"
      by (intro create_collection_both_exist) (simp_all add: no_faults_def)
    ultimately show ?thesis using assms info \<open>has_collection name cat\<close> by auto
  next
    case False
    with \<open>has_collection name cat\<close> info assms
    have r: "r = Inr ()"
      and cat': "collections cat' = AList.update name
          (info\<lparr>payload_schema := AList.update ''file_path'' KEYWORD (payload_schema info)\<rparr>)
          (collections cat)"
      by (auto simp: create_collection_def backend_get_collection_def no_faults_def
                     backend_create_payload_index_def has_collection_def Let_def)
    have "''file_path'' \<in> fst ` set (AList.update ''file_path'' KEYWORD (payload_schema info))"
      by (simp add: dom_update)
    with r info \<open>has_collection name cat\<close> show ?thesis
      by (simp add: cat' update_conv' has_file_path_index_def)
  qed
next
  case False
  then have none: "map_of (collections cat) name = None"
    by (simp add: has_collection_def map_of_eq_None_iff)
  let ?info0 = "\<lparr>vectors_size = 768, vectors_distance = COSINE, payload_schema = []\<rparr>"
  from False none assms
  have r: "r = Inr ()"
    and cat': "collections cat' = AList.update name
          (?info0\<lparr>payload_schema := AList.update ''file_path'' KEYWORD (payload_schema ?info0)\<rparr>)
          (collections cat @ [(name, ?info0)])"
    by (auto simp: create_collection_def backend_get_collection_def no_faults_def
                   backend_create_collection_def
                   backend_create_payload_index_def has_collection_def Let_def map_add_def)
  from r none False show ?thesis
    by (auto simp: cat' update_conv' has_file_path_index_def map_add_def split: option.splits)
qed


lemma create_collection_errors:
  "(get_collections_raises f = Some e \<longrightarrow> create_collection name f cat = (Inl e, cat))
   \<and> (get_collections_raises f = None \<and> \<not> has_collection name cat
        \<and> create_collection_raises f = Some e \<longrightarrow> fst (create_collection name f cat) = Inl e)
   \<and> (get_collections_raises f = None
        \<and> (has_collection name cat \<or> create_collection_raises f = None)
        \<and> get_collection_raises f = Some e \<longrightarrow> fst (create_collection name f cat) = Inl e)
   \<and> (get_collections_raises f = None
        \<and> (has_collection name cat \<or> create_collection_raises f = None)
        \<and> get_collection_raises f = None \<and> \<not> has_file_path_index name cat
        \<and> create_payload_index_raises f = Some e \<longrightarrow> fst (create_collection name f cat) = Inl e)"
proof (cases "has_collection name cat")
  case True
  then have "map_of (collections cat) name \<noteq> None"
    by (simp add: has_collection_def map_of_eq_None_iff)
  then obtain info where "map_of (collections cat) name = Some info" by auto
  with True show ?thesis
    by (auto simp: create_collection_def backend_get_collection_def
                   backend_create_payload_index_def has_collection_def has_file_path_index_def
                   Let_def split: option.splits)
next
  case False
  then have none: "map_of (collections cat) name = None"
    by (simp add: has_collection_def map_of_eq_None_iff)
  with False show ?thesis
    by (auto simp: create_collection_def backend_get_collection_def
                   backend_create_collection_def
                   backend_create_payload_index_def has_collection_def has_file_path_index_def
                   Let_def map_add_def split: option.splits)
qed

section \<open>Claims\<close>

text \<open>
  C5. For every path that does not exist on the filesystem, create\_embeddings returns a
  structured error result, not an exception: its status is "error" and its message,
  "File not found", contains "not found".
\<close>
theorem missing_file_error:
  assumes "\<not> path_exists env fp"
  shows "fst (create_embeddings env fp ow st) = [(''status'', ''error''), (''message'', ''File not found'')]
     \<and> map_of (fst (create_embeddings env fp ow st)) ''status'' = Some ''error''
     \<and> (\<exists>m. map_of (fst (create_embeddings env fp ow st)) ''message'' = Some m \<and> sublist ''not found'' m)"
proof -
  have "sublist ''not found'' (''File '' @ ''not found'' @ [])"
    by (rule sublist_appendI)
  then have "sublist ''not found'' ''File not found''" by simp
  with assms show ?thesis by (simp add: create_embeddings_missing)
qed

theorem missing_file_error_witness:
  "\<not> path_exists sample_env ''/no/such/file''
   \<and> fst (create_embeddings sample_env ''/no/such/file'' True sample_store) =
       [(''status'', ''error''), (''message'', ''File not found'')]
   \<and> map_of (fst (create_embeddings sample_env ''/no/such/file'' True sample_store)) ''status'' = Some ''error''
   \<and> (\<exists>m. map_of (fst (create_embeddings sample_env ''/no/such/file'' True sample_store)) ''message'' = Some m
          \<and> sublist ''not found'' m)"
proof -
  have h: "\<not> path_exists sample_env ''/no/such/file''"
    by (simp add: sample_env_def)
  from h missing_file_error [OF h, of True sample_store] show ?thesis by blast
qed

text \<open>
  C10. For every path that does not exist, create\_embeddings performs no index operation
  at all, whatever the overwrite flag: the store, that is the index and the list of calls
  issued, is exactly what it was.
\<close>
theorem missing_file_no_index_operation:
  assumes "\<not> path_exists env fp"
  shows "snd (create_embeddings env fp ow st) = st
     \<and> index (snd (create_embeddings env fp ow st)) = index st
     \<and> calls (snd (create_embeddings env fp ow st)) = calls st"
  using assms by (simp add: create_embeddings_missing)

theorem missing_file_no_index_operation_witness:
  "\<not> path_exists sample_env ''/no/such/file''
   \<and> snd (create_embeddings sample_env ''/no/such/file'' True sample_store) = sample_store
   \<and> calls (snd (create_embeddings sample_env ''/no/such/file'' True sample_store)) = []"
proof -
  have h: "\<not> path_exists sample_env ''/no/such/file''"
    by (simp add: sample_env_def)
  from missing_file_no_index_operation [OF h, of True sample_store]
  have "snd (create_embeddings sample_env ''/no/such/file'' True sample_store) = sample_store"
    by blast
  with h show ?thesis by (simp add: sample_store_def)
qed

text \<open>
  C4. If the embedding call or the index query fails, qdrant\_search does not raise: it
  returns a list of exactly one entry, whose text field is the non-empty string
  "Error searching documents: " followed by the text of the exception.
\<close>
theorem search_degrades_to_error_entry:
  assumes "embed_query env query = Inl e
           \<or> (\<exists>embedding. embed_query env query = Inr embedding \<and> query_points env embedding top_k = Inl e)"
  shows "qdrant_search env query top_k = [ [(''text'', ''Error searching documents: '' @ str_exn e)] ]
     \<and> length (qdrant_search env query top_k) = 1
     \<and> (\<forall>entry \<in> set (qdrant_search env query top_k). dict_get entry ''text'' [] \<noteq> [])"
proof -
  from assms have "search_body env query top_k = Inl e"
    by (auto simp: search_body_def)
  then show ?thesis by (simp add: qdrant_search_def dict_get_def)
qed

theorem search_degrades_to_error_entry_witness:
  "embed_query sample_env ''what is in the document'' = Inl (Exception ''quota exceeded'')
   \<and> qdrant_search sample_env ''what is in the document'' 5 =
       [ [(''text'', ''Error searching documents: quota exceeded'')] ]"
proof -
  have h: "embed_query sample_env ''what is in the document'' = Inl (Exception ''quota exceeded'')"
    by (simp add: sample_env_def)
  then have "embed_query sample_env ''what is in the document'' = Inl (Exception ''quota exceeded'')
           \<or> (\<exists>embedding. embed_query sample_env ''what is in the document'' = Inr embedding
                \<and> query_points sample_env embedding 5 = Inl (Exception ''quota exceeded''))"
    by (rule disjI1)
  from search_degrades_to_error_entry [OF this] h show ?thesis by simp
qed

text \<open>
  C2. Let A and B be distinct file paths and p an indexed point of B. Re-ingesting A with
  overwrite=true leaves p in the index, unaltered; and any point the call removes either
  has payload file\_path equal to A or carries an identifier that uuid4 generates again.
  Identifiers are taken to be fresh: the identifier of p is none of those uuid4 returns.
\<close>
theorem reingest_keeps_other_files:
  assumes "A \<noteq> B" and "p \<in> set (index st)" and "has_file_path B p"
    and "pid p \<notin> range (uuid4 env)"
  shows "p \<in> set (index (snd (create_embeddings env A True st)))
     \<and> (\<forall>q \<in> set (index st). q \<notin> set (index (snd (create_embeddings env A True st))) \<longrightarrow>
            has_file_path A q \<or> pid q \<in> range (uuid4 env))"
proof -
  from assms(1,3) have "\<not> has_file_path A p" by (auto simp: has_file_path_def)
  with assms(2,4) have "p \<in> set (index (snd (create_embeddings env A True st)))"
    by (intro create_embeddings_keeps) auto
  moreover have "has_file_path A q \<or> pid q \<in> range (uuid4 env)"
    if "q \<in> set (index st)" "q \<notin> set (index (snd (create_embeddings env A True st)))" for q
    using that create_embeddings_keeps [of q st True A env] by blast
  ultimately show ?thesis by blast
qed

theorem reingest_keeps_other_files_witness:
  "''/docs/a.pdf'' \<noteq> ''/docs/b.txt''
   \<and> \<lparr>pid = ''old-b'', vector = [1], payload = [(''text'', ''notes''), (''file_path'', ''/docs/b.txt'')]\<rparr>
        \<in> set (index sample_store)
   \<and> has_file_path ''/docs/b.txt''
        \<lparr>pid = ''old-b'', vector = [1::nat], payload = [(''text'', ''notes''), (''file_path'', ''/docs/b.txt'')]\<rparr>
   \<and> ''old-b'' \<notin> range (uuid4 sample_env)
   \<and> \<lparr>pid = ''old-b'', vector = [1], payload = [(''text'', ''notes''), (''file_path'', ''/docs/b.txt'')]\<rparr>
        \<in> set (index (snd (create_embeddings sample_env ''/docs/a.pdf'' True sample_store)))"
proof -
  let ?p = "\<lparr>pid = ''old-b'', vector = [1::nat], payload = [(''text'', ''notes''), (''file_path'', ''/docs/b.txt'')]\<rparr>"
  have h1: "''/docs/a.pdf'' \<noteq> ''/docs/b.txt''" by simp
  have h2: "?p \<in> set (index sample_store)" by (simp add: sample_store_def)
  have h3: "has_file_path ''/docs/b.txt'' ?p" by (simp add: has_file_path_def)
  have h4: "pid ?p \<notin> range (uuid4 sample_env)" by (auto simp: sample_env_def)
  from reingest_keeps_other_files [OF h1 h2 h3 h4] h1 h2 h3 h4 show ?thesis by simp
qed

text \<open>
  C9. For an existing file, create\_embeddings with overwrite=false issues no delete and
  every point present before the call is present after it. A call that succeeds has
  written one point per chunk, carrying the chunk text and this file\_path under the
  generated identifiers; when these are pairwise distinct the index is the old one followed
  by the new points, so the number of points of this file\_path grows by the number of
  chunks on every such call. Identifiers are taken to be fresh for the index.
\<close>
theorem no_overwrite_accumulates:
  assumes "path_exists env fp"
    and "\<forall>i. uuid4 env i \<notin> pid ` set (index st)"
  shows "set (index st) \<subseteq> set (index (snd (create_embeddings env fp False st)))
     \<and> (\<exists>new. calls (snd (create_embeddings env fp False st)) = calls st @ new
            \<and> (\<forall>c \<in> set new. \<forall>path. c \<noteq> DeleteCall path))
     \<and> (map_of (fst (create_embeddings env fp False st)) ''status'' = Some ''success'' \<longrightarrow>
          (\<exists>content chunks ps.
              extract_text env fp = Inr content \<and> split_text env content = Inr chunks
              \<and> map pid ps = map (uuid4 env) [0 ..< length chunks]
              \<and> map payload ps = map (\<lambda>c. [(''text'', c), (''file_path'', fp)]) chunks
              \<and> (distinct (map (uuid4 env) [0 ..< length chunks]) \<longrightarrow>
                    index (snd (create_embeddings env fp False st)) = index st @ ps
                    \<and> length (filter (has_file_path fp) (index (snd (create_embeddings env fp False st))))
                        = length (filter (has_file_path fp) (index st)) + length chunks)))"
proof -
  obtain r st' where body: "ingest_body env fp False st = (r, st')"
    by (cases "ingest_body env fp False st")
  with assms(1) have ce: "create_embeddings env fp False st =
      ((case r of Inl e \<Rightarrow> [(''status'', ''error''), (''message'', str_exn e)] | Inr res \<Rightarrow> res), st')"
    by (rule create_embeddings_existing)
  have base: "base_index env fp False st = index st" by (simp add: base_index_def)
  have kept: "set (index st) \<subseteq> set (index (snd (create_embeddings env fp False st)))"
  proof
    fix p assume p: "p \<in> set (index st)"
    with assms(2) have "pid p \<notin> range (uuid4 env)" by (metis imageI rangeE)
    with p show "p \<in> set (index (snd (create_embeddings env fp False st)))"
      by (intro create_embeddings_keeps) auto
  qed
  let ?res = "create_embeddings env fp False st"
  from ingest_body_calls [OF body]
  have "\<exists>new. calls st' = calls st @ new \<and> (\<forall>c \<in> set new. \<forall>path. c \<noteq> DeleteCall path)"
    by (simp add: delete_calls_def)
  then have calls: "\<exists>new. calls (snd ?res) = calls st @ new
      \<and> (\<forall>c \<in> set new. \<forall>path. c \<noteq> DeleteCall path)"
    by (simp only: ce snd_conv)
  have grows: "\<exists>content chunks ps.
      extract_text env fp = Inr content \<and> split_text env content = Inr chunks
      \<and> map pid ps = map (uuid4 env) [0 ..< length chunks]
      \<and> map payload ps = map (\<lambda>c. [(''text'', c), (''file_path'', fp)]) chunks
      \<and> (distinct (map (uuid4 env) [0 ..< length chunks]) \<longrightarrow>
            index (snd ?res) = index st @ ps
            \<and> length (filter (has_file_path fp) (index (snd ?res)))
                = length (filter (has_file_path fp) (index st)) + length chunks)"
    if success: "map_of (fst ?res) ''status'' = Some ''success''"
  proof -
    from success have "\<not> (r = Inr [(''status'', ''error''), (''message'', ''No text extracted from the file'')]
        \<or> (\<exists>e. r = Inl e))"
      by (auto simp: ce)
    with ingest_body_outcome [OF body] obtain content chunks ps where
      ex: "extract_text env fp = Inr content" and sp: "split_text env content = Inr chunks"
      and ids: "map pid ps = map (uuid4 env) [0 ..< length chunks]"
      and pls: "map payload ps = map (\<lambda>c. [(''text'', c), (''file_path'', fp)]) chunks"
      and idx: "index st' = upsert_points ps (base_index env fp False st)"
      by blast
    have len: "length ps = length chunks"
      using arg_cong [OF ids, of length] by simp
    have all_fp: "filter (has_file_path fp) ps = ps"
    proof -
      have "\<forall>p \<in> set ps. payload p \<in> set (map payload ps)" by simp
      then have "\<forall>p \<in> set ps. has_file_path fp p"
        unfolding pls by (auto simp: has_file_path_def)
      then show ?thesis by (simp add: filter_id_conv)
    qed
    have grow: "index (snd ?res) = index st @ ps
        \<and> length (filter (has_file_path fp) (index (snd ?res)))
            = length (filter (has_file_path fp) (index st)) + length chunks"
      if d: "distinct (map (uuid4 env) [0 ..< length chunks])"
    proof -
      have "distinct (map pid ps)" using d by (simp only: ids)
      moreover have "pid ` set ps \<inter> pid ` set (index st) = {}"
      proof -
        have "pid ` set ps = set (map pid ps)" by simp
        also have "\<dots> \<subseteq> range (uuid4 env)" unfolding ids by auto
        finally have sub: "pid ` set ps \<subseteq> range (uuid4 env)" .
        have "x \<notin> pid ` set (index st)" if "x \<in> pid ` set ps" for x
        proof -
          from that sub obtain i where "x = uuid4 env i" by auto
          with assms(2) show ?thesis by simp
        qed
        then show ?thesis by (simp add: disjoint_iff)
      qed
      ultimately have "upsert_points ps (index st) = index st @ ps"
        by (rule upsert_points_fresh)
      with idx base have "index st' = index st @ ps" by simp
      then have "index (snd ?res) = index st @ ps" by (simp only: ce snd_conv)
      with all_fp len show ?thesis by simp
    qed
    from ex sp ids pls grow show ?thesis by blast
  qed
  from kept calls grows show ?thesis by blast
qed

theorem no_overwrite_accumulates_witness:
  "path_exists sample_env ''/docs/a.pdf''
   \<and> (\<forall>i. uuid4 sample_env i \<notin> pid ` set (index sample_store))
   \<and> set (index sample_store) \<subseteq> set (index (snd (create_embeddings sample_env ''/docs/a.pdf'' False sample_store)))
   \<and> map_of (fst (create_embeddings sample_env ''/docs/a.pdf'' False sample_store)) ''status'' = Some ''success''
   \<and> distinct (map (uuid4 sample_env) [0 ..< 2])
   \<and> length (filter (has_file_path ''/docs/a.pdf'')
         (index (snd (create_embeddings sample_env ''/docs/a.pdf'' False sample_store)))) = 1 + 2"
proof -
  have h1: "path_exists sample_env ''/docs/a.pdf''" by (simp add: sample_env_def)
  have h2: "\<forall>i. uuid4 sample_env i \<notin> pid ` set (index sample_store)"
    by (simp add: sample_env_def sample_store_def)
  have h3: "map_of (fst (create_embeddings sample_env ''/docs/a.pdf'' False sample_store)) ''status'' = Some ''success''"
    by code_simp
  have h4: "distinct (map (uuid4 sample_env) [0 ..< 2])"
    by code_simp
  have h5: "length (filter (has_file_path ''/docs/a.pdf'')
         (index (snd (create_embeddings sample_env ''/docs/a.pdf'' False sample_store)))) = 1 + 2"
    by code_simp
  from no_overwrite_accumulates [OF h1 h2] have
    "set (index sample_store) \<subseteq> set (index (snd (create_embeddings sample_env ''/docs/a.pdf'' False sample_store)))"
    by blast
  with h1 h2 h3 h4 h5 show ?thesis by blast
qed




text \<open>
  C1, as stated, fails: a successful ingestion returns a dictionary with the two keys
  status and message, and no chunk\_count field. Here two chunks were upserted and the
  count appears only inside the message.
\<close>
theorem success_result_has_no_chunk_count:
  "path_exists sample_env ''/docs/a.pdf''
   \<and> fst (create_embeddings sample_env ''/docs/a.pdf'' True sample_store) =
        [(''status'', ''success''), (''message'', ''Document added with 2 chunks'')]
   \<and> map_of (fst (create_embeddings sample_env ''/docs/a.pdf'' True sample_store)) ''chunk_count'' = None"
  by code_simp

text \<open>
  C1, amended. For every existing file path on which ingestion succeeds, create\_embeddings
  returns exactly the dictionary with status "success" and message "Document added with N
  chunks", where N is the number of points of the batch passed to the last call, the upsert,
  which did not raise; the result has no chunk\_count key.
\<close>

theorem success_result_shape:
  assumes "path_exists env fp"
    and "map_of (fst (create_embeddings env fp ow st)) ''status'' = Some ''success''"
  shows "\<exists>ps. fst (create_embeddings env fp ow st) =
             [(''status'', ''success''), (''message'', success_message (length ps))]
          \<and> map_of (fst (create_embeddings env fp ow st)) ''chunk_count'' = None
          \<and> calls (snd (create_embeddings env fp ow st)) \<noteq> []
          \<and> last (calls (snd (create_embeddings env fp ow st))) = UpsertCall ps
          \<and> upsert_raises env ps = None"
proof -
  obtain r st' where body: "ingest_body env fp ow st = (r, st')"
    by (cases "ingest_body env fp ow st")
  with assms(1) have ce: "create_embeddings env fp ow st =
      ((case r of Inl e \<Rightarrow> [(''status'', ''error''), (''message'', str_exn e)] | Inr res \<Rightarrow> res), st')"
    by (rule create_embeddings_existing)
  from assms(2) have "\<not> (r = Inr [(''status'', ''error''), (''message'', ''No text extracted from the file'')]
        \<or> (\<exists>e. r = Inl e))"
    by (auto simp: ce)
  with ingest_body_outcome [OF body] obtain content chunks ps where
    up: "upsert_raises env ps = None"
    and r: "r = Inr [(''status'', ''success''), (''message'', success_message (length ps))]"
    and cl: "calls st' = calls st @ delete_calls fp ow @ [SplitTextCall content]
                  @ map EmbedContentCall chunks @ [UpsertCall ps]"
    by blast
  have "fst (create_embeddings env fp ow st) =
             [(''status'', ''success''), (''message'', success_message (length ps))]"
    by (simp add: ce r)
  moreover have "map_of (fst (create_embeddings env fp ow st)) ''chunk_count'' = None"
    by (simp add: ce r)
  moreover have "calls (snd (create_embeddings env fp ow st)) \<noteq> []"
    by (simp add: ce cl)
  moreover have "last (calls (snd (create_embeddings env fp ow st))) = UpsertCall ps"
    by (simp add: ce cl)
  ultimately show ?thesis using up by blast
qed

theorem success_result_shape_witness:
  "path_exists sample_env ''/docs/a.pdf''
   \<and> map_of (fst (create_embeddings sample_env ''/docs/a.pdf'' True sample_store)) ''status'' = Some ''success''
   \<and> (\<exists>ps. fst (create_embeddings sample_env ''/docs/a.pdf'' True sample_store) =
             [(''status'', ''success''), (''message'', success_message (length ps))]
          \<and> last (calls (snd (create_embeddings sample_env ''/docs/a.pdf'' True sample_store))) = UpsertCall ps)"
proof -
  have h1: "path_exists sample_env ''/docs/a.pdf''" by (simp add: sample_env_def)
  have h2: "map_of (fst (create_embeddings sample_env ''/docs/a.pdf'' True sample_store)) ''status'' = Some ''success''"
    by code_simp
  from success_result_shape [OF h1 h2] h1 h2 show ?thesis by blast
qed

text \<open>
  C6. Let an existing file be ingested with overwrite=true and let the scoped delete
  succeed. If a later step fails, that is extraction raises, or the splitter raises, or the
  embedding of some chunk raises, or the batch upsert raises, then the call returns a result
  with status "error" and the index is the old one without the points of this file\_path:
  it holds zero points for it.
\<close>
theorem failed_reingest_leaves_no_points:
  assumes "path_exists env A"
    and "delete_raises env A = None"
    and "extract_text env A = Inl e
       \<or> (\<exists>content. extract_text env A = Inr content \<and> py_strip content \<noteq> [] \<and>
             (split_text env content = Inl e
              \<or> (\<exists>chunks. split_text env content = Inr chunks \<and>
                    ((\<exists>k < length chunks. embed_content env k (chunks ! k) = Inl e)
                     \<or> (\<exists>ps st0. fst (build_points env A 0 chunks st0) = Inr ps
                            \<and> upsert_raises env ps = Some e)))))"
  shows "map_of (fst (create_embeddings env A True st)) ''status'' = Some ''error''
     \<and> index (snd (create_embeddings env A True st)) = delete_by_file_path A (index st)
     \<and> filter (has_file_path A) (index (snd (create_embeddings env A True st))) = []"
proof -
  obtain r st' where body: "ingest_body env A True st = (r, st')"
    by (cases "ingest_body env A True st")
  with assms(1) have ce: "create_embeddings env A True st =
      ((case r of Inl e \<Rightarrow> [(''status'', ''error''), (''message'', str_exn e)] | Inr res \<Rightarrow> res), st')"
    by (rule create_embeddings_existing)
  have no_success: False
    if ex: "extract_text env A = Inr content" and sp: "split_text env content = Inr chunks"
      and built: "\<forall>st0. fst (build_points env A 0 chunks st0) = Inr ps"
      and up: "upsert_raises env ps = None"
    for content chunks ps
    using assms(3)
  proof (elim disjE exE conjE)
    assume "extract_text env A = Inl e"
    with ex show False by simp
  next
    fix c assume "extract_text env A = Inr c" "split_text env c = Inl e"
    with ex sp show False by simp
  next
    fix c cs k
    assume "extract_text env A = Inr c" "split_text env c = Inr cs"
      and k: "k < length cs" "embed_content env k (cs ! k) = Inl e"
    with ex sp have cs: "cs = chunks" by simp
    from k have "\<exists>e'. fst (build_points env A 0 cs st) = Inl e'"
      by (intro build_points_fails [of k]) simp_all
    with built cs show False by simp
  next
    fix c cs qs st0
    assume "extract_text env A = Inr c" "split_text env c = Inr cs"
      and q: "fst (build_points env A 0 cs st0) = Inr qs" "upsert_raises env qs = Some e"
    with ex sp have "cs = chunks" by simp
    with q(1) built have "qs = ps" by simp
    with q(2) up show False by simp
  qed
  from ingest_body_outcome [OF body] no_success
  have fail: "r = Inr [(''status'', ''error''), (''message'', ''No text extracted from the file'')]
              \<or> (\<exists>e. r = Inl e)"
    and idx: "index st' = base_index env A True st"
    by blast+
  from fail have "map_of (fst (create_embeddings env A True st)) ''status'' = Some ''error''"
    by (auto simp: ce)
  moreover from idx assms(2) have "index (snd (create_embeddings env A True st)) = delete_by_file_path A (index st)"
    by (simp add: ce base_index_def)
  ultimately show ?thesis by (simp add: delete_by_file_path_none_left)
qed

theorem failed_reingest_leaves_no_points_witness:
  "path_exists upsert_down_env ''/docs/a.pdf''
   \<and> delete_raises upsert_down_env ''/docs/a.pdf'' = None
   \<and> map_of (fst (create_embeddings upsert_down_env ''/docs/a.pdf'' True sample_store)) ''status'' = Some ''error''
   \<and> filter (has_file_path ''/docs/a.pdf'')
        (index (snd (create_embeddings upsert_down_env ''/docs/a.pdf'' True sample_store))) = []
   \<and> filter (has_file_path ''/docs/a.pdf'') (index sample_store) \<noteq> []"
proof -
  let ?ps = "[\<lparr>pid = ''uuid-0'', vector = [0, 5], payload = [(''text'', ''Hello''), (''file_path'', ''/docs/a.pdf'')]\<rparr>,
              \<lparr>pid = ''uuid-1'', vector = [1::nat, 7], payload = [(''text'', [CHR 0x0A, CHR 0x0A] @ ''World''), (''file_path'', ''/docs/a.pdf'')]\<rparr>]"
  let ?content = "''Hello'' @ [CHR 0x0A, CHR 0x0A] @ ''World''"
  let ?chunks = "[''Hello'', [CHR 0x0A, CHR 0x0A] @ ''World'']"
  let ?e = "Exception ''index unavailable''"
  have h1: "path_exists upsert_down_env ''/docs/a.pdf''"
    by (simp add: upsert_down_env_def sample_env_def)
  have h2: "delete_raises upsert_down_env ''/docs/a.pdf'' = None"
    by (simp add: upsert_down_env_def sample_env_def)
  have e1: "extract_text upsert_down_env ''/docs/a.pdf'' = Inr ?content"
    by code_simp
  have e2: "py_strip ?content \<noteq> []" by code_simp
  have e3: "split_text upsert_down_env ?content = Inr ?chunks" by code_simp
  have e4: "fst (build_points upsert_down_env ''/docs/a.pdf'' 0 ?chunks sample_store) = Inr ?ps"
    by code_simp
  have e5: "upsert_raises upsert_down_env ?ps = Some ?e"
    by (simp add: upsert_down_env_def)
  have h3: "extract_text upsert_down_env ''/docs/a.pdf'' = Inl ?e
       \<or> (\<exists>content. extract_text upsert_down_env ''/docs/a.pdf'' = Inr content \<and> py_strip content \<noteq> [] \<and>
             (split_text upsert_down_env content = Inl ?e
              \<or> (\<exists>chunks. split_text upsert_down_env content = Inr chunks \<and>
                    ((\<exists>k < length chunks. embed_content upsert_down_env k (chunks ! k) = Inl ?e)
                     \<or> (\<exists>ps st0. fst (build_points upsert_down_env ''/docs/a.pdf'' 0 chunks st0) = Inr ps
                            \<and> upsert_raises upsert_down_env ps = Some ?e)))))"
    using e1 e2 e3 e4 e5 by blast
  have h4: "filter (has_file_path ''/docs/a.pdf'') (index sample_store) \<noteq> []"
    by (simp add: sample_store_def has_file_path_def)
  from failed_reingest_leaves_no_points [OF h1 h2 h3, of sample_store] h1 h2 h4
  show ?thesis by blast
qed

text \<open>
  C8, as stated, fails. The page texts are joined with a newline between them, not plainly
  concatenated: the pages "Hello", no text, "World" give "Hello", two newlines, "World". And a
  page whose extraction raises makes the extraction of the whole document raise.
\<close>
theorem pdf_pages_not_plainly_concatenated:
  "pdf_reader sample_env ''/docs/a.pdf'' = Inr [Inr (Some ''Hello''), Inr None, Inr (Some ''World'')]
   \<and> extract_text sample_env ''/docs/a.pdf'' = Inr (''Hello'' @ [CHR 0x0A, CHR 0x0A] @ ''World'')
   \<and> extract_text sample_env ''/docs/a.pdf'' \<noteq> Inr (concat [''Hello'', [], ''World''])
   \<and> pdf_reader bad_page_env ''/docs/a.pdf'' =
        Inr [Inr (Some ''Hello''), Inl (Exception ''broken stream''), Inr (Some ''World'')]
   \<and> extract_text bad_page_env ''/docs/a.pdf'' =
        Inl (ValueError ''Unsupported file type or extraction error: broken stream'')"
  by (simp add: sample_env_def bad_page_env_def extract_text_def extract_by_mime_def py_or_empty_def)

text \<open>
  C8, amended. For every existing PDF file that the reader opens: if no page raises,
  extract\_text returns the per-page texts in page order joined by a newline, where a page
  yielding no text (\<open>None\<close> or the empty string) contributes the empty string; if the
  extraction of some page raises, extract\_text raises ValueError with the message
  "Unsupported file type or extraction error: " followed by the text of a page's exception.
\<close>

theorem pdf_pages_joined_by_newline:
  assumes "path_exists env fp"
    and "magic_from_file env fp = Inr ''application/pdf''"
    and "pdf_reader env fp = Inr pages"
  shows "((\<forall>p \<in> set pages. \<exists>t. p = Inr t) \<longrightarrow>
            extract_text env fp =
              Inr (py_join [CHR 0x0A]
                     (map (\<lambda>p. case p of Inl _ \<Rightarrow> [] | Inr t \<Rightarrow> py_or_empty t) pages)))
     \<and> ((\<exists>e. Inl e \<in> set pages) \<longrightarrow>
            (\<exists>e. Inl e \<in> set pages \<and> extract_text env fp =
               Inl (ValueError (''Unsupported file type or extraction error: '' @ str_exn e))))
     \<and> py_or_empty None = [] \<and> py_or_empty (Some []) = []"
proof -
  have ok: "extract_text env fp =
              Inr (py_join [CHR 0x0A]
                     (map (\<lambda>p. case p of Inl _ \<Rightarrow> [] | Inr t \<Rightarrow> py_or_empty t) pages))"
    if "\<forall>p \<in> set pages. \<exists>t. p = Inr t"
    using assms page_texts_all_ok [OF that]
    by (simp add: extract_text_def extract_by_mime_def)
  have bad: "\<exists>e. Inl e \<in> set pages \<and> extract_text env fp =
               Inl (ValueError (''Unsupported file type or extraction error: '' @ str_exn e))"
    if "\<exists>e. Inl e \<in> set pages"
  proof -
    from page_texts_some_raise [OF that] obtain e where
      "Inl e \<in> set pages" "page_texts pages = Inl e" by blast
    with assms show ?thesis
      by (auto simp: extract_text_def extract_by_mime_def)
  qed
  from ok bad show ?thesis by (simp add: py_or_empty_def)
qed

theorem pdf_pages_joined_by_newline_witness:
  "path_exists sample_env ''/docs/a.pdf''
   \<and> magic_from_file sample_env ''/docs/a.pdf'' = Inr ''application/pdf''
   \<and> pdf_reader sample_env ''/docs/a.pdf'' = Inr [Inr (Some ''Hello''), Inr None, Inr (Some ''World'')]
   \<and> extract_text sample_env ''/docs/a.pdf'' =
       Inr (py_join [CHR 0x0A] [''Hello'', [], ''World''])"
proof -
  let ?pages = "[Inr (Some ''Hello''), Inr None, Inr (Some ''World'')] :: (exn + string option) list"
  have h1: "path_exists sample_env ''/docs/a.pdf''" by (simp add: sample_env_def)
  have h2: "magic_from_file sample_env ''/docs/a.pdf'' = Inr ''application/pdf''"
    by (simp add: sample_env_def)
  have h3: "pdf_reader sample_env ''/docs/a.pdf'' = Inr ?pages" by (simp add: sample_env_def)
  have h4: "\<forall>p \<in> set ?pages. \<exists>t. p = Inr t" by simp
  from pdf_pages_joined_by_newline [OF h1 h2 h3] h4
  have "extract_text sample_env ''/docs/a.pdf'' =
      Inr (py_join [CHR 0x0A] (map (\<lambda>p. case p of Inl _ \<Rightarrow> [] | Inr t \<Rightarrow> py_or_empty t) ?pages))"
    by blast
  with h1 h2 h3 show ?thesis by (simp add: py_or_empty_def)
qed

text \<open>
  C7. create\_collection is idempotent. When the collection and its file\_path index both
  exist and the two read requests succeed, the call returns normally and changes nothing.
  The create requests it sends are exactly: a create of the collection with size 768 and
  cosine distance when no collection of that name exists, then a create of the keyword index
  on file\_path when the collection has none; when both exist it sends none. With a backend
  that does not fail, the call returns normally, the collection and the index exist
  afterwards (a new collection has size 768, cosine distance and the keyword index), and a
  second call returns normally and leaves the catalog as the first call left it. An
  exception raised by any of the four backend requests is the exception of the call.
\<close>
theorem create_collection_idempotent:
  "(get_collections_raises f = None \<and> get_collection_raises f = None
      \<and> has_collection name cat \<and> has_file_path_index name cat \<longrightarrow>
        create_collection name f cat = (Inr (), cat))
   \<and> new_create_ops name f cat =
       (if get_collections_raises f \<noteq> None then []
        else (if has_collection name cat then [] else [CreateCollectionCall name 768 COSINE])
           @ (if (has_collection name cat \<or> create_collection_raises f = None)
                 \<and> get_collection_raises f = None
                 \<and> \<not> has_file_path_index name cat
              then [CreatePayloadIndexCall name ''file_path'' KEYWORD] else []))
   \<and> (has_collection name cat \<and> has_file_path_index name cat \<longrightarrow> new_create_ops name f cat = [])
   \<and> fst (create_collection name no_faults cat) = Inr ()
   \<and> has_collection name (snd (create_collection name no_faults cat))
   \<and> has_file_path_index name (snd (create_collection name no_faults cat))
   \<and> (\<not> has_collection name cat \<longrightarrow>
         map_of (collections (snd (create_collection name no_faults cat))) name =
           Some \<lparr>vectors_size = 768, vectors_distance = COSINE,
                 payload_schema = [(''file_path'', KEYWORD)]\<rparr>)
   \<and> create_collection name no_faults (snd (create_collection name no_faults cat)) =
        (Inr (), snd (create_collection name no_faults cat))
   \<and> (get_collections_raises f = Some e \<longrightarrow> create_collection name f cat = (Inl e, cat))
   \<and> (get_collections_raises f = None \<and> \<not> has_collection name cat
        \<and> create_collection_raises f = Some e \<longrightarrow> fst (create_collection name f cat) = Inl e)
   \<and> (get_collections_raises f = None
        \<and> (has_collection name cat \<or> create_collection_raises f = None)
        \<and> get_collection_raises f = Some e \<longrightarrow> fst (create_collection name f cat) = Inl e)
   \<and> (get_collections_raises f = None
        \<and> (has_collection name cat \<or> create_collection_raises f = None)
        \<and> get_collection_raises f = None \<and> \<not> has_file_path_index name cat
        \<and> create_payload_index_raises f = Some e \<longrightarrow> fst (create_collection name f cat) = Inl e)"
proof -
  obtain r cat' where run: "create_collection name no_faults cat = (r, cat')"
    by (cases "create_collection name no_faults cat")
  note nf = create_collection_no_faults [OF run]
  from nf have idx': "has_file_path_index name cat'" by blast
  then have col': "has_collection name cat'" by (rule has_index_has_collection)
  from idx' have again: "create_collection name no_faults cat' = (Inr (), cat')"
    by (intro create_collection_both_exist) (simp_all add: no_faults_def)
  have a: "get_collections_raises f = None \<and> get_collection_raises f = None
      \<and> has_collection name cat \<and> has_file_path_index name cat \<longrightarrow>
        create_collection name f cat = (Inr (), cat)"
    by (simp add: create_collection_both_exist)
  have b: "has_collection name cat \<and> has_file_path_index name cat \<longrightarrow> new_create_ops name f cat = []"
    by (simp add: create_collection_ops_both_exist)
  have c: "fst (create_collection name no_faults cat) = Inr ()"
    using nf by (simp add: run)
  have d: "has_collection name (snd (create_collection name no_faults cat))"
    using col' by (simp add: run)
  have d': "has_file_path_index name (snd (create_collection name no_faults cat))"
    using idx' by (simp add: run)
  have g: "\<not> has_collection name cat \<longrightarrow>
         map_of (collections (snd (create_collection name no_faults cat))) name =
           Some \<lparr>vectors_size = 768, vectors_distance = COSINE,
                 payload_schema = [(''file_path'', KEYWORD)]\<rparr>"
    using nf by (simp add: run)
  have h: "create_collection name no_faults (snd (create_collection name no_faults cat)) =
        (Inr (), snd (create_collection name no_faults cat))"
    using again by (simp add: run)
  from a create_collection_ops [of name f cat] b c d d' g h create_collection_errors [of f e name cat]
  show ?thesis by (intro conjI) blast+
qed

theorem create_collection_idempotent_witness:
  "\<not> has_collection ''gemini-embeddings'' fresh_catalog
   \<and> create_collection ''gemini-embeddings'' no_faults fresh_catalog =
       (Inr (), \<lparr>collections = [(''gemini-embeddings'',
                    \<lparr>vectors_size = 768, vectors_distance = COSINE,
                      payload_schema = [(''file_path'', KEYWORD)]\<rparr>)],
                 create_ops = [CreateCollectionCall ''gemini-embeddings'' 768 COSINE,
                               CreatePayloadIndexCall ''gemini-embeddings'' ''file_path'' KEYWORD]\<rparr>)
   \<and> has_collection ''gemini-embeddings'' (snd (create_collection ''gemini-embeddings'' no_faults fresh_catalog))
   \<and> has_file_path_index ''gemini-embeddings'' (snd (create_collection ''gemini-embeddings'' no_faults fresh_catalog))
   \<and> new_create_ops ''gemini-embeddings'' no_faults
        (snd (create_collection ''gemini-embeddings'' no_faults fresh_catalog)) = []
   \<and> create_collection ''gemini-embeddings'' no_faults
        (snd (create_collection ''gemini-embeddings'' no_faults fresh_catalog)) =
       (Inr (), snd (create_collection ''gemini-embeddings'' no_faults fresh_catalog))"
proof -
  let ?cat1 = "snd (create_collection ''gemini-embeddings'' no_faults fresh_catalog)"
  have h0: "\<not> has_collection ''gemini-embeddings'' fresh_catalog"
    by (simp add: has_collection_def fresh_catalog_def)
  have h1: "create_collection ''gemini-embeddings'' no_faults fresh_catalog =
       (Inr (), \<lparr>collections = [(''gemini-embeddings'',
                    \<lparr>vectors_size = 768, vectors_distance = COSINE,
                      payload_schema = [(''file_path'', KEYWORD)]\<rparr>)],
                 create_ops = [CreateCollectionCall ''gemini-embeddings'' 768 COSINE,
                               CreatePayloadIndexCall ''gemini-embeddings'' ''file_path'' KEYWORD]\<rparr>)"
    by (simp add: create_collection_def no_faults_def fresh_catalog_def backend_create_collection_def
                  backend_get_collection_def backend_create_payload_index_def Let_def)
  have h2: "has_collection ''gemini-embeddings'' ?cat1"
    and h3: "has_file_path_index ''gemini-embeddings'' ?cat1"
    by (simp_all add: h1 has_collection_def has_file_path_index_def)
  from create_collection_idempotent [of no_faults "''gemini-embeddings''" ?cat1 "Exception []"] h2 h3
  have "new_create_ops ''gemini-embeddings'' no_faults ?cat1 = []" by blast
  moreover from create_collection_idempotent [of no_faults "''gemini-embeddings''" fresh_catalog "Exception []"]
  have "create_collection ''gemini-embeddings'' no_faults ?cat1 = (Inr (), ?cat1)" by blast
  ultimately show ?thesis using h0 h1 h2 h3 by blast
qed

end
